theory Spec2Isabelle
  imports Main "HOL-Library.Multiset" "HOL-Library.AList"
begin

section \<open>Data model\<close>

text \<open>
  The mutation \<^verbatim>\<open>CreateOrUpdateArticleReplyFeedback\<close> works on three document
  indices: \<^verbatim>\<open>articlereplyfeedbacks\<close>, \<^verbatim>\<open>articles\<close> and \<^verbatim>\<open>replies\<close>.
  Identifiers and timestamps (\<^verbatim>\<open>new Date().toISOString()\<close>) are strings.
\<close>

text \<open>
  The \<^verbatim>\<open>comment\<close> argument has the type \<^verbatim>\<open>comment?: string | null\<close>: it is
  \<^verbatim>\<open>undefined\<close> when the argument is left out, \<^verbatim>\<open>null\<close>, or a string. A stored
  document has the same three cases: the key is missing, holds null, or holds a string.
\<close>

datatype comment = Undefined | Null | Str string

record articleReplyFeedback =
  articleId :: string
  replyId :: string
  userId :: string
  appId :: string
  score :: int
  createdAt :: string
  updatedAt :: string
  comment :: comment
  status :: string
  replyUserId :: "string option"
  articleReplyUserId :: "string option"

text \<open>
  An entry of an article's \<^verbatim>\<open>articleReplies\<close> list, with the fields this module reads
  and writes; the entry's other fields are the record's extension. An article is its
  \<^verbatim>\<open>articleReplies\<close> list, with every other field in the extension. A field whose
  name a feedback record has too carries a prefix: \<open>ar_replyId\<close> and \<open>ar_userId\<close>
  of an entry, \<open>reply_userId\<close> of a reply, \<open>user_id\<close> and \<open>user_appId\<close> of
  the acting user.
\<close>

record articleReply =
  ar_replyId :: string
  ar_userId :: string
  positiveFeedbackCount :: nat
  negativeFeedbackCount :: nat

record 'r article =
  articleReplies :: "'r articleReply_scheme list"

record reply =
  reply_userId :: string

record user =
  user_id :: string
  user_appId :: string

text \<open>
  The stored state: each index lists its documents with their \<^verbatim>\<open>_id\<close>, in the order
  they were inserted. \<open>docLoads\<close> records the \<^verbatim>\<open>(index, id)\<close> queries made through
  \<^verbatim>\<open>loaders.docLoader\<close>.
\<close>

record ('r, 'a) state =
  articlereplyfeedbacks :: "(string \<times> articleReplyFeedback) list"
  articles :: "(string \<times> ('r, 'a) article_scheme) list"
  replies :: "(string \<times> reply) list"
  docLoads :: "(string \<times> string) list"

text \<open>
  What the mutation can throw: the assertion on the user, a document missing from an
  index, and the three \<^verbatim>\<open>throw new Error\<close> of the module (lines 93, 185 and 218).
\<close>

datatype error =
    Unauthenticated
  | DocumentMissing string
  | NotFound string string
  | CannotUpdateFeedbackCount string
  | CannotFindArticleReply string string
  | CannotGetUpdatedArticleReply string string

section \<open>The document store\<close>

text \<open>
  Modelled from the spec: \<^verbatim>\<open>client\<close> of \<^verbatim>\<open>util/client\<close>, the client of the
  document store, which is not among the sources. Its \<^verbatim>\<open>update\<close> with a partial
  document \<^verbatim>\<open>doc\<close> merges the listed fields into the stored document and touches no
  other field (\<open>merge\<close> below is that merge, as a function of the stored document);
  when no document is stored under the id it inserts \<^verbatim>\<open>upsert\<close> and reports
  \<^verbatim>\<open>created\<close>, or fails when no \<^verbatim>\<open>upsert\<close> is given. A merge that changes
  nothing reports \<^verbatim>\<open>noop\<close>.
\<close>

datatype es_result = Created | Updated | Noop

definition clientUpdate ::
  "string \<Rightarrow> ('v \<Rightarrow> 'v) \<Rightarrow> 'v option \<Rightarrow> (string \<times> 'v) list
     \<Rightarrow> error + (es_result \<times> (string \<times> 'v) list)" where
  "clientUpdate docId merge upsert idx =
     (case map_of idx docId of
        None \<Rightarrow>
          (case upsert of
             None \<Rightarrow> Inl (DocumentMissing docId)
           | Some d \<Rightarrow> Inr (Created, AList.update docId d idx))
      | Some d \<Rightarrow>
          (let d' = merge d
           in if d' = d then Inr (Noop, idx)
              else Inr (Updated, AList.update docId d' idx)))"

text \<open>
  Modelled from the spec: the same \<^verbatim>\<open>update\<close> with a \<^verbatim>\<open>script\<close>, a single
  conditional read-modify-write on one document. The store runs the script on the
  stored document and fails when there is none under the id. The script
  either sets \<^verbatim>\<open>ctx.op = 'none'\<close>, and the update reports \<^verbatim>\<open>noop\<close> and writes
  nothing, or leaves the default operation, and the changed source is written and the
  update reports \<^verbatim>\<open>updated\<close>. The third component is \<^verbatim>\<open>get._source\<close>, asked for
  with \<^verbatim>\<open>_source: 'true'\<close>.
\<close>

datatype ctx_op = OpIndex | OpNone

definition clientUpdateScript ::
  "string \<Rightarrow> ('v \<Rightarrow> ctx_op \<times> 'v) \<Rightarrow> (string \<times> 'v) list
     \<Rightarrow> error + (es_result \<times> 'v \<times> (string \<times> 'v) list)" where
  "clientUpdateScript docId script idx =
     (case map_of idx docId of
        None \<Rightarrow> Inl (DocumentMissing docId)
      | Some d \<Rightarrow>
          (case script d of
             (OpNone, _) \<Rightarrow> Inr (Noop, d, idx)
           | (OpIndex, d') \<Rightarrow> Inr (Updated, d', AList.update docId d' idx)))"

section \<open>The composite key\<close>

text \<open>
  \<^verbatim>\<open>getArticleReplyFeedbackId\<close>: the template string
  \<^verbatim>\<open>`${articleId}__${replyId}__${userId}__${appId}`\<close>.
\<close>

definition getArticleReplyFeedbackId :: "string \<Rightarrow> string \<Rightarrow> string \<Rightarrow> string \<Rightarrow> string" where
  "getArticleReplyFeedbackId aid rid uid app =
     aid @ ''__'' @ rid @ ''__'' @ uid @ ''__'' @ app"

text \<open>Whether a string contains the separator \<^verbatim>\<open>__\<close>, and whether it ends with \<^verbatim>\<open>_\<close>.\<close>

fun hasSeparator :: "string \<Rightarrow> bool" where
  "hasSeparator (a # b # cs) = ((a = CHR ''_'' \<and> b = CHR ''_'') \<or> hasSeparator (b # cs))"
| "hasSeparator _ = False"

definition endsWithUnderscore :: "string \<Rightarrow> bool" where
  "endsWithUnderscore s = (s \<noteq> [] \<and> last s = CHR ''_'')"

section \<open>Counting feedback\<close>

text \<open>
  Lines 42 to 54 of \<^verbatim>\<open>updateArticleReplyByFeedbacks\<close>: the records are filtered on
  \<^verbatim>\<open>status === 'NORMAL'\<close> and reduced from \<^verbatim>\<open>[0, 0]\<close>; \<open>countStep\<close> is the
  reducer.
\<close>

fun countStep :: "nat \<times> nat \<Rightarrow> articleReplyFeedback \<Rightarrow> nat \<times> nat" where
  "countStep (p, n) r =
     (if score r = 1 then (p + 1, n)
      else if score r = - 1 then (p, n + 1)
      else (p, n))"

definition feedbackCounts :: "articleReplyFeedback list \<Rightarrow> nat \<times> nat" where
  "feedbackCounts feedbacks =
     foldl countStep (0, 0) (filter (\<lambda>r. status r = ''NORMAL'') feedbacks)"

section \<open>The script of the projector\<close>

text \<open>
  The loop of the script (lines 63 to 70): \<^verbatim>\<open>idx\<close> runs from its start value until
  an entry's \<^verbatim>\<open>replyId\<close> equals the parameter or the list ends.
\<close>

function scriptLoop :: "'r articleReply_scheme list \<Rightarrow> string \<Rightarrow> nat \<Rightarrow> nat" where
  "scriptLoop ars rid idx =
     (if idx < length ars
      then (if ar_replyId (ars ! idx) = rid then idx else scriptLoop ars rid (idx + 1))
      else idx)"
  by pat_completeness auto
termination
  by (relation "measure (\<lambda>(ars, rid, idx). length ars - idx)") auto

declare scriptLoop.simps [simp del]

text \<open>Lines 63 to 79: the whole script, on \<^verbatim>\<open>ctx._source\<close>.\<close>

definition script ::
  "string \<Rightarrow> nat \<Rightarrow> nat \<Rightarrow> ('r, 'a) article_scheme \<Rightarrow> ctx_op \<times> ('r, 'a) article_scheme" where
  "script rid positive negative src =
     (let replyCount = length (articleReplies src);
          idx = scriptLoop (articleReplies src) rid 0
      in if idx = replyCount then (OpNone, src)
         else (OpIndex,
               src\<lparr>articleReplies := (articleReplies src)
                 [idx := (articleReplies src ! idx)
                    \<lparr>positiveFeedbackCount := positive,
                     negativeFeedbackCount := negative\<rparr>]\<rparr>))"

section \<open>updateArticleReplyByFeedbacks\<close>

text \<open>
  The function returns the state after it, with either the error thrown or the value
  returned: the entry that \<^verbatim>\<open>find\<close> gives, which may be undefined.
\<close>

definition updateArticleReplyByFeedbacks ::
  "('r, 'a) state \<Rightarrow> string \<Rightarrow> string \<Rightarrow> articleReplyFeedback list
     \<Rightarrow> ('r, 'a) state \<times> (error + 'r articleReply_scheme option)" where
  "updateArticleReplyByFeedbacks s aid rid feedbacks =
     (case feedbackCounts feedbacks of
        (positive, negative) \<Rightarrow>
          (case clientUpdateScript aid (script rid positive negative) (articles s) of
             Inl e \<Rightarrow> (s, Inl e)
           | Inr (result, source, idx) \<Rightarrow>
               (let s' = s\<lparr>articles := idx\<rparr>
                in if result \<noteq> Updated then (s', Inl (CannotUpdateFeedbackCount aid))
                   else (s', Inr (find (\<lambda>ar. ar_replyId ar = rid) (articleReplies source))))))"

section \<open>The mutation\<close>

text \<open>
  Modelled from the spec: \<^verbatim>\<open>assertUser\<close> of \<^verbatim>\<open>util/user\<close>, which is not among the
  sources. The acting user must be an authenticated identity; the assertion fails with
  Unauthenticated otherwise. A request without a user is \<open>None\<close>.
\<close>

definition assertUser :: "'u user_scheme option \<Rightarrow> error + 'u user_scheme" where
  "assertUser u = (case u of None \<Rightarrow> Inl Unauthenticated | Some v \<Rightarrow> Inr v)"

text \<open>
  Modelled from the spec: \<^verbatim>\<open>loaders.docLoader\<close>, which is not among the sources: a
  load by index and id that returns the document or fails with NotFound.
\<close>

definition loadDoc :: "string \<Rightarrow> string \<Rightarrow> (string \<times> 'v) list \<Rightarrow> error + 'v" where
  "loadDoc index docId idx =
     (case map_of idx docId of None \<Rightarrow> Inl (NotFound index docId) | Some d \<Rightarrow> Inr d)"

text \<open>
  Modelled from the spec: \<^verbatim>\<open>loaders.articleReplyFeedbacksLoader\<close>, which is not among
  the sources: every feedback record of the pair, whatever its status.
\<close>

definition articleReplyFeedbacksLoader ::
  "(string \<times> articleReplyFeedback) list \<Rightarrow> string \<Rightarrow> string \<Rightarrow> articleReplyFeedback list" where
  "articleReplyFeedbacksLoader idx aid rid =
     map snd (filter (\<lambda>(i, r). articleId r = aid \<and> replyId r = rid) idx)"

text \<open>
  The partial document of the vote (lines 145 to 149). The client sends the body as
  JSON, and JSON has no undefined: a key whose value is \<^verbatim>\<open>undefined\<close> is left out of
  the body, so the merge does not touch that field. A \<^verbatim>\<open>null\<close> is sent and stored.
\<close>

definition voteDoc :: "int \<Rightarrow> comment \<Rightarrow> string \<Rightarrow> articleReplyFeedback \<Rightarrow> articleReplyFeedback" where
  "voteDoc vote cmt now r =
     r\<lparr>score := vote,
       comment := (case cmt of Undefined \<Rightarrow> comment r | _ \<Rightarrow> cmt),
       updatedAt := now\<rparr>"

text \<open>The partial document of the back-fill (lines 197 to 200).\<close>

definition authorDoc :: "string \<Rightarrow> string \<Rightarrow> articleReplyFeedback \<Rightarrow> articleReplyFeedback" where
  "authorDoc replyUser articleReplyUser r =
     r\<lparr>replyUserId := Some replyUser, articleReplyUserId := Some articleReplyUser\<rparr>"

text \<open>
  Lines 166 to 202, the branch taken when the upsert reports \<^verbatim>\<open>created\<close>: both
  documents are loaded, the entry is looked for, and the feedback record is patched.
\<close>

definition fillAuthors ::
  "('r, 'a) state \<Rightarrow> string \<Rightarrow> string \<Rightarrow> string \<Rightarrow> ('r, 'a) state \<times> (error + unit)" where
  "fillAuthors s fid aid rid =
     (let s1 = s\<lparr>docLoads := docLoads s @ [(''replies'', rid), (''articles'', aid)]\<rparr>
      in case loadDoc ''replies'' rid (replies s1) of
           Inl e \<Rightarrow> (s1, Inl e)
         | Inr rep \<Rightarrow>
             (case loadDoc ''articles'' aid (articles s1) of
                Inl e \<Rightarrow> (s1, Inl e)
              | Inr art \<Rightarrow>
                  (case find (\<lambda>ar. ar_replyId ar = rid) (articleReplies art) of
                     None \<Rightarrow> (s1, Inl (CannotFindArticleReply aid rid))
                   | Some ar \<Rightarrow>
                       (case clientUpdate fid (authorDoc (reply_userId rep) (ar_userId ar)) None
                               (articlereplyfeedbacks s1) of
                          Inl e \<Rightarrow> (s1, Inl e)
                        | Inr (_, idx) \<Rightarrow> (s1\<lparr>articlereplyfeedbacks := idx\<rparr>, Inr ())))))"

text \<open>
  \<^verbatim>\<open>resolve\<close>. \<open>getContentDefaultStatus\<close> (of \<^verbatim>\<open>util/user\<close>, not among the
  sources) is a parameter; \<open>now\<close> is the clock's reading. The result is the state
  after the call, with the error thrown or the pair of \<^verbatim>\<open>articleId\<close> and the updated
  entry.
\<close>

definition resolve ::
  "('u user_scheme \<Rightarrow> string) \<Rightarrow> ('r, 'a) state \<Rightarrow> string \<Rightarrow> string \<Rightarrow> string \<Rightarrow> int \<Rightarrow> comment
     \<Rightarrow> 'u user_scheme option
     \<Rightarrow> ('r, 'a) state \<times> (error + string \<times> 'r articleReply_scheme)" where
  "resolve getContentDefaultStatus s now aid rid vote cmt usr =
     (case assertUser usr of
        Inl e \<Rightarrow> (s, Inl e)
      | Inr u \<Rightarrow>
          (let fid = getArticleReplyFeedbackId aid rid (user_id u) (user_appId u);
               upsert = \<lparr>articleId = aid, replyId = rid, userId = user_id u,
                         appId = user_appId u, score = vote, createdAt = now,
                         updatedAt = now, comment = cmt,
                         status = getContentDefaultStatus u,
                         replyUserId = None, articleReplyUserId = None\<rparr>
           in case clientUpdate fid (voteDoc vote cmt now) (Some upsert)
                     (articlereplyfeedbacks s) of
                Inl e \<Rightarrow> (s, Inl e)
              | Inr (result, idx) \<Rightarrow>
                  (let s1 = s\<lparr>articlereplyfeedbacks := idx\<rparr>
                   in case (if result = Created then fillAuthors s1 fid aid rid
                            else (s1, Inr ())) of
                        (s2, Inl e) \<Rightarrow> (s2, Inl e)
                      | (s2, Inr _) \<Rightarrow>
                          (let feedbacks =
                                 articleReplyFeedbacksLoader (articlereplyfeedbacks s2) aid rid
                           in case updateArticleReplyByFeedbacks s2 aid rid feedbacks of
                                (s3, Inl e) \<Rightarrow> (s3, Inl e)
                              | (s3, Inr None) \<Rightarrow>
                                  (s3, Inl (CannotGetUpdatedArticleReply aid rid))
                              | (s3, Inr (Some ar)) \<Rightarrow> (s3, Inr (aid, ar))))))"

section \<open>Parts of the mutation, named\<close>

text \<open>
  Two parts of \<open>resolve\<close> under names of their own, for the statements below: the
  \<^verbatim>\<open>upsert\<close> document of lines 150 to 160, and lines 205 to 223, everything after
  the back-fill.
\<close>

definition upsertDoc ::
  "('u user_scheme \<Rightarrow> string) \<Rightarrow> string \<Rightarrow> string \<Rightarrow> string \<Rightarrow> int \<Rightarrow> comment \<Rightarrow> 'u user_scheme
     \<Rightarrow> articleReplyFeedback" where
  "upsertDoc getContentDefaultStatus now aid rid vote cmt u =
     \<lparr>articleId = aid, replyId = rid, userId = user_id u, appId = user_appId u,
      score = vote, createdAt = now, updatedAt = now, comment = cmt,
      status = getContentDefaultStatus u,
      replyUserId = None, articleReplyUserId = None\<rparr>"

definition recount ::
  "('r, 'a) state \<Rightarrow> string \<Rightarrow> string
     \<Rightarrow> ('r, 'a) state \<times> (error + string \<times> 'r articleReply_scheme)" where
  "recount s2 aid rid =
     (case updateArticleReplyByFeedbacks s2 aid rid
             (articleReplyFeedbacksLoader (articlereplyfeedbacks s2) aid rid) of
        (s3, Inl e) \<Rightarrow> (s3, Inl e)
      | (s3, Inr None) \<Rightarrow> (s3, Inl (CannotGetUpdatedArticleReply aid rid))
      | (s3, Inr (Some ar)) \<Rightarrow> (s3, Inr (aid, ar)))"

section \<open>Sequences of votes\<close>

text \<open>
  A vote of one identity on one pair: what differs from call to call is the vote, the
  comment and the clock. \<open>recordVotes\<close> makes the calls one after the other, each on
  the state the previous one left, whether it returned or threw.
\<close>

record vote_call =
  call_vote :: int
  call_comment :: comment
  call_now :: string

definition recordVotes ::
  "('u user_scheme \<Rightarrow> string) \<Rightarrow> string \<Rightarrow> string \<Rightarrow> 'u user_scheme \<Rightarrow> ('r, 'a) state
     \<Rightarrow> vote_call list \<Rightarrow> ('r, 'a) state" where
  "recordVotes getContentDefaultStatus aid rid u s calls =
     foldl (\<lambda>s' c. fst (resolve getContentDefaultStatus s' (call_now c) aid rid
                          (call_vote c) (call_comment c) (Some u))) s calls"

text \<open>The comment a record keeps when a later vote comes with the given comment.\<close>

definition keptComment :: "comment \<Rightarrow> comment \<Rightarrow> comment" where
  "keptComment old new = (case new of Undefined \<Rightarrow> old | _ \<Rightarrow> new)"

text \<open>What a later vote of the sequence makes of the stored record.\<close>

definition revote :: "articleReplyFeedback \<Rightarrow> vote_call \<Rightarrow> articleReplyFeedback" where
  "revote r c = voteDoc (call_vote c) (call_comment c) (call_now c) r"

section \<open>Example data\<close>

text \<open>A feedback record on the pair (A1, R1), by the given user with the given score and status.\<close>

definition fb :: "string \<Rightarrow> int \<Rightarrow> string \<Rightarrow> articleReplyFeedback" where
  "fb uid sc st =
     \<lparr>articleId = ''A1'', replyId = ''R1'', userId = uid, appId = ''web'',
      score = sc, createdAt = ''t0'', updatedAt = ''t0'', comment = Undefined, status = st,
      replyUserId = None, articleReplyUserId = None\<rparr>"

text \<open>
  A store with two articles and three replies. Article A1 has entries for the replies R1
  and R2 and none for R3.
\<close>

definition article1 :: "(unit, string) article_scheme" where
  "article1 =
     \<lparr>articleReplies =
        [\<lparr>ar_replyId = ''R1'', ar_userId = ''E1'',
          positiveFeedbackCount = 0, negativeFeedbackCount = 0\<rparr>,
         \<lparr>ar_replyId = ''R2'', ar_userId = ''E2'',
          positiveFeedbackCount = 3, negativeFeedbackCount = 4\<rparr>],
      \<dots> = ''foo''\<rparr>"

definition article2 :: "(unit, string) article_scheme" where
  "article2 =
     \<lparr>articleReplies =
        [\<lparr>ar_replyId = ''R2'', ar_userId = ''E3'',
          positiveFeedbackCount = 5, negativeFeedbackCount = 6\<rparr>],
      \<dots> = ''bar''\<rparr>"

definition store0 :: "(unit, string) state" where
  "store0 =
     \<lparr>articlereplyfeedbacks = [],
      articles = [(''A1'', article1), (''A2'', article2)],
      replies = [(''R1'', \<lparr>reply_userId = ''W1''\<rparr>), (''R2'', \<lparr>reply_userId = ''W2''\<rparr>),
                 (''R3'', \<lparr>reply_userId = ''W3''\<rparr>)],
      docLoads = []\<rparr>"

definition user1 :: user where
  "user1 = \<lparr>user_id = ''U1'', user_appId = ''web''\<rparr>"

definition user2 :: user where
  "user2 = \<lparr>user_id = ''U2'', user_appId = ''web''\<rparr>"

definition normalStatus :: "user \<Rightarrow> string" where
  "normalStatus u = ''NORMAL''"

text \<open>The store after user U1 has voted 1 on (A1, R1) at t1, with the comment good.\<close>

definition store1 :: "(unit, string) state" where
  "store1 =
     \<lparr>articlereplyfeedbacks =
        [(''A1__R1__U1__web'',
          \<lparr>articleId = ''A1'', replyId = ''R1'', userId = ''U1'', appId = ''web'',
           score = 1, createdAt = ''t1'', updatedAt = ''t1'', comment = Str ''good'',
           status = ''NORMAL'', replyUserId = Some ''W1'', articleReplyUserId = Some ''E1''\<rparr>)],
      articles =
        [(''A1'', article1\<lparr>articleReplies :=
            [\<lparr>ar_replyId = ''R1'', ar_userId = ''E1'',
              positiveFeedbackCount = 1, negativeFeedbackCount = 0\<rparr>,
             \<lparr>ar_replyId = ''R2'', ar_userId = ''E2'',
              positiveFeedbackCount = 3, negativeFeedbackCount = 4\<rparr>]\<rparr>),
         (''A2'', article2)],
      replies = replies store0,
      docLoads = [(''replies'', ''R1''), (''articles'', ''A1'')]\<rparr>"

section \<open>Properties of the counts\<close>

lemma foldl_countStep:
  "foldl countStep (p, n) rs =
     (p + length (filter (\<lambda>r. score r = 1) rs),
      n + length (filter (\<lambda>r. score r = - 1) rs))"
  by (induction rs arbitrary: p n) auto

lemma feedbackCounts_length:
  "feedbackCounts fs =
     (length (filter (\<lambda>r. status r = ''NORMAL'' \<and> score r = 1) fs),
      length (filter (\<lambda>r. status r = ''NORMAL'' \<and> score r = - 1) fs))"
  by (simp add: feedbackCounts_def foldl_countStep conj_commute)

lemma length_filter_mset:
  "mset xs = mset ys \<Longrightarrow> length (filter P xs) = length (filter P ys)"
proof -
  assume "mset xs = mset ys"
  then have "mset (filter P xs) = mset (filter P ys)"
    by simp
  then have "size (mset (filter P xs)) = size (mset (filter P ys))"
    by simp
  then show ?thesis
    by (simp only: size_mset)
qed

text \<open>
  C1: for every list of feedback records the positive count is the number of records with
  status NORMAL and score 1, the negative count is the number of records with status
  NORMAL and score -1, and both counts are the same for every permutation of the list.
\<close>

theorem feedbackCounts_correct:
  "fst (feedbackCounts fs) = length (filter (\<lambda>r. status r = ''NORMAL'' \<and> score r = 1) fs)
   \<and> snd (feedbackCounts fs) = length (filter (\<lambda>r. status r = ''NORMAL'' \<and> score r = - 1) fs)
   \<and> (\<forall>fs'. mset fs' = mset fs \<longrightarrow> feedbackCounts fs' = feedbackCounts fs)"
  by (auto simp: feedbackCounts_length intro: length_filter_mset)

theorem feedbackCounts_correct_witness:
  "feedbackCounts [fb ''U1'' 1 ''NORMAL'', fb ''U2'' (- 1) ''NORMAL'',
                   fb ''U3'' 1 ''BLOCKED'', fb ''U4'' 1 ''NORMAL''] = (2, 1)
   \<and> feedbackCounts [fb ''U4'' 1 ''NORMAL'', fb ''U3'' 1 ''BLOCKED'',
                     fb ''U2'' (- 1) ''NORMAL'', fb ''U1'' 1 ''NORMAL''] = (2, 1)"
proof -
  let ?fs = "[fb ''U1'' 1 ''NORMAL'', fb ''U2'' (- 1) ''NORMAL'',
              fb ''U3'' 1 ''BLOCKED'', fb ''U4'' 1 ''NORMAL'']"
  let ?fs' = "[fb ''U4'' 1 ''NORMAL'', fb ''U3'' 1 ''BLOCKED'',
               fb ''U2'' (- 1) ''NORMAL'', fb ''U1'' 1 ''NORMAL'']"
  have p: "mset ?fs' = mset ?fs"
    by (simp add: add_mset_commute)
  have c: "feedbackCounts ?fs = (2, 1)"
    using feedbackCounts_correct [of ?fs] by (simp add: fb_def prod_eq_iff)
  from feedbackCounts_correct [of ?fs] p have "feedbackCounts ?fs' = feedbackCounts ?fs"
    by blast
  with c show ?thesis by simp
qed

text \<open>
  C7: a record whose status is not NORMAL, whatever its score, and a record whose status
  is NORMAL and whose score is neither 1 nor -1 (score 0 among them), adds to neither
  counter: the counts of a list with the record are those of the list without it.
\<close>

theorem feedbackCounts_neutral:
  "status r \<noteq> ''NORMAL'' \<or> (score r \<noteq> 1 \<and> score r \<noteq> - 1) \<Longrightarrow>
   feedbackCounts (xs @ r # ys) = feedbackCounts (xs @ ys)"
  by (auto simp: feedbackCounts_length)

theorem feedbackCounts_neutral_witness:
  "feedbackCounts ([fb ''U1'' 1 ''NORMAL''] @ fb ''U2'' 1 ''DELETED'' # [fb ''U3'' (- 1) ''NORMAL''])
     = feedbackCounts ([fb ''U1'' 1 ''NORMAL''] @ [fb ''U3'' (- 1) ''NORMAL''])
   \<and> feedbackCounts ([fb ''U1'' 1 ''NORMAL''] @ fb ''U2'' 0 ''NORMAL'' # [fb ''U3'' (- 1) ''NORMAL''])
     = feedbackCounts ([fb ''U1'' 1 ''NORMAL''] @ [fb ''U3'' (- 1) ''NORMAL''])
   \<and> feedbackCounts ([fb ''U1'' 1 ''NORMAL''] @ [fb ''U3'' (- 1) ''NORMAL'']) = (1, 1)"
proof -
  have a: "status (fb ''U2'' 1 ''DELETED'') \<noteq> ''NORMAL''
           \<or> (score (fb ''U2'' 1 ''DELETED'') \<noteq> 1 \<and> score (fb ''U2'' 1 ''DELETED'') \<noteq> - 1)"
    by (simp add: fb_def)
  have b: "status (fb ''U2'' 0 ''NORMAL'') \<noteq> ''NORMAL''
           \<or> (score (fb ''U2'' 0 ''NORMAL'') \<noteq> 1 \<and> score (fb ''U2'' 0 ''NORMAL'') \<noteq> - 1)"
    by (simp add: fb_def)
  have c: "feedbackCounts ([fb ''U1'' 1 ''NORMAL''] @ [fb ''U3'' (- 1) ''NORMAL'']) = (1, 1)"
    by (simp add: feedbackCounts_def fb_def)
  from feedbackCounts_neutral [OF a] feedbackCounts_neutral [OF b] c show ?thesis
    by blast
qed

section \<open>Properties of the composite key\<close>

lemma hasSeparator_iff: "hasSeparator s \<longleftrightarrow> (\<exists>xs ys. s = xs @ ''__'' @ ys)"
proof (induction s rule: hasSeparator.induct)
  case (1 a b cs)
  show ?case
  proof
    assume "hasSeparator (a # b # cs)"
    then consider "a = CHR ''_'' \<and> b = CHR ''_''" | "hasSeparator (b # cs)" by auto
    then show "\<exists>xs ys. a # b # cs = xs @ ''__'' @ ys"
    proof cases
      case 1
      then have "a # b # cs = [] @ ''__'' @ cs" by simp
      then show ?thesis by blast
    next
      case 2
      with "1.IH" obtain xs ys where "b # cs = xs @ ''__'' @ ys" by blast
      then have "a # b # cs = (a # xs) @ ''__'' @ ys" by simp
      then show ?thesis by blast
    qed
  next
    assume "\<exists>xs ys. a # b # cs = xs @ ''__'' @ ys"
    then obtain xs ys where e: "a # b # cs = xs @ ''__'' @ ys" by blast
    show "hasSeparator (a # b # cs)"
    proof (cases xs)
      case Nil
      with e show ?thesis by simp
    next
      case (Cons x xs')
      with e have "b # cs = xs' @ ''__'' @ ys" by simp
      then have "\<exists>xs ys. b # cs = xs @ ''__'' @ ys" by blast
      with "1.IH" have "hasSeparator (b # cs)" by blast
      then show ?thesis by simp
    qed
  qed
qed (auto simp: Cons_eq_append_conv)

lemma no_separator_tl:
  "\<not> hasSeparator (c # s) \<Longrightarrow> \<not> endsWithUnderscore (c # s)
   \<Longrightarrow> \<not> hasSeparator s \<and> \<not> endsWithUnderscore s"
  by (cases s) (auto simp: endsWithUnderscore_def)

lemma separator_not_prefix:
  assumes p: "\<not> hasSeparator b" "\<not> endsWithUnderscore b" and ne: "b \<noteq> []"
  shows "''__'' @ x \<noteq> b @ ''__'' @ y"
proof
  assume e: "''__'' @ x = b @ ''__'' @ y"
  from ne obtain d b' where b: "b = d # b'" by (cases b) auto
  with e have d: "d = CHR ''_''" and e': "CHR ''_'' # x = b' @ ''__'' @ y" by auto
  show False
  proof (cases b')
    case Nil
    with b d p show False by (simp add: endsWithUnderscore_def)
  next
    case (Cons f b'')
    with e' have "f = CHR ''_''" by simp
    with Cons b d p show False by simp
  qed
qed

lemma separator_cancel:
  "\<not> hasSeparator a \<Longrightarrow> \<not> endsWithUnderscore a \<Longrightarrow> \<not> hasSeparator b \<Longrightarrow> \<not> endsWithUnderscore b
   \<Longrightarrow> a @ ''__'' @ x = b @ ''__'' @ y \<Longrightarrow> a = b \<and> x = y"
proof (induction a arbitrary: b)
  case Nil
  show ?case
  proof (cases "b = []")
    case True
    with Nil.prems show ?thesis by simp
  next
    case False
    with Nil.prems separator_not_prefix [of b x y] show ?thesis by simp
  qed
next
  case (Cons c a)
  show ?case
  proof (cases b)
    case Nil
    with Cons.prems separator_not_prefix [of "c # a" y x] show ?thesis by simp
  next
    case (Cons d b')
    with Cons.prems have "c = d" and "a @ ''__'' @ x = b' @ ''__'' @ y" by simp_all
    moreover from Cons.prems Cons
    have "\<not> hasSeparator a" "\<not> endsWithUnderscore a" "\<not> hasSeparator b'" "\<not> endsWithUnderscore b'"
      by (auto dest: no_separator_tl)
    ultimately show ?thesis using Cons.IH [of b'] Cons by simp
  qed
qed

text \<open>
  C9, as the claim states it, fails: two different tuples, none of whose fields contains
  the separator, have the same key, because an underscore at the end of one field runs
  into the separator.
\<close>

theorem getArticleReplyFeedbackId_collision:
  "getArticleReplyFeedbackId ''a_'' ''b'' ''u'' ''p'' = getArticleReplyFeedbackId ''a'' ''_b'' ''u'' ''p''
   \<and> (''a_'', ''b'', ''u'', ''p'') \<noteq> (''a'', ''_b'', ''u'', ''p'')
   \<and> \<not> hasSeparator ''a_'' \<and> \<not> hasSeparator ''b'' \<and> \<not> hasSeparator ''a''
   \<and> \<not> hasSeparator ''_b'' \<and> \<not> hasSeparator ''u'' \<and> \<not> hasSeparator ''p''"
  by (simp add: getArticleReplyFeedbackId_def)

text \<open>
  C9, amended: for two tuples none of whose fields contains the separator and whose
  articleId, replyId and userId do not end with an underscore, the keys are equal exactly
  when the tuples are equal.
\<close>

theorem getArticleReplyFeedbackId_inj:
  assumes "\<not> hasSeparator a" "\<not> hasSeparator r" "\<not> hasSeparator u" "\<not> hasSeparator p"
    and "\<not> hasSeparator a'" "\<not> hasSeparator r'" "\<not> hasSeparator u'" "\<not> hasSeparator p'"
    and "\<not> endsWithUnderscore a" "\<not> endsWithUnderscore r" "\<not> endsWithUnderscore u"
    and "\<not> endsWithUnderscore a'" "\<not> endsWithUnderscore r'" "\<not> endsWithUnderscore u'"
  shows "getArticleReplyFeedbackId a r u p = getArticleReplyFeedbackId a' r' u' p'
         \<longleftrightarrow> (a, r, u, p) = (a', r', u', p')"
proof
  assume "getArticleReplyFeedbackId a r u p = getArticleReplyFeedbackId a' r' u' p'"
  then have e1: "a @ ''__'' @ (r @ ''__'' @ u @ ''__'' @ p)
                 = a' @ ''__'' @ (r' @ ''__'' @ u' @ ''__'' @ p')"
    by (simp add: getArticleReplyFeedbackId_def)
  from separator_cancel [OF assms(1) assms(9) assms(5) assms(12) e1]
  have a: "a = a'" and e2: "r @ ''__'' @ (u @ ''__'' @ p) = r' @ ''__'' @ (u' @ ''__'' @ p')"
    by simp_all
  from separator_cancel [OF assms(2) assms(10) assms(6) assms(13) e2]
  have r: "r = r'" and e3: "u @ ''__'' @ p = u' @ ''__'' @ p'"
    by simp_all
  from separator_cancel [OF assms(3) assms(11) assms(7) assms(14) e3] a r
  show "(a, r, u, p) = (a', r', u', p')" by simp
next
  assume "(a, r, u, p) = (a', r', u', p')"
  then show "getArticleReplyFeedbackId a r u p = getArticleReplyFeedbackId a' r' u' p'" by simp
qed

theorem getArticleReplyFeedbackId_inj_witness:
  "getArticleReplyFeedbackId ''A_1'' ''R1'' ''U1'' ''web''
     \<noteq> getArticleReplyFeedbackId ''A'' ''1_R1'' ''U1'' ''web''
   \<and> \<not> hasSeparator ''A_1'' \<and> \<not> endsWithUnderscore ''A_1''
   \<and> \<not> hasSeparator ''A'' \<and> \<not> endsWithUnderscore ''A''"
  using getArticleReplyFeedbackId_inj [of "''A_1''" "''R1''" "''U1''" "''web''"
                                          "''A''" "''1_R1''" "''U1''" "''web''"]
  by (simp add: endsWithUnderscore_def)

section \<open>Properties of the script\<close>

lemma scriptLoop_bounds:
  "idx \<le> length ars \<Longrightarrow> idx \<le> scriptLoop ars rid idx \<and> scriptLoop ars rid idx \<le> length ars"
proof (induction ars rid idx rule: scriptLoop.induct)
  case (1 ars rid idx)
  show ?case
  proof (cases "idx < length ars \<and> ar_replyId (ars ! idx) \<noteq> rid")
    case True
    with "1.IH" have "idx + 1 \<le> scriptLoop ars rid (idx + 1) \<and> scriptLoop ars rid (idx + 1) \<le> length ars"
      by simp
    with True show ?thesis by (subst (1 2) scriptLoop.simps) simp
  next
    case False
    with "1.prems" show ?thesis by (subst (1 2) scriptLoop.simps) auto
  qed
qed

lemma scriptLoop_found:
  "scriptLoop ars rid idx < length ars \<Longrightarrow> ar_replyId (ars ! scriptLoop ars rid idx) = rid"
proof (induction ars rid idx rule: scriptLoop.induct)
  case (1 ars rid idx)
  show ?case
  proof (cases "idx < length ars \<and> ar_replyId (ars ! idx) \<noteq> rid")
    case True
    then have e: "scriptLoop ars rid idx = scriptLoop ars rid (idx + 1)"
      by (subst scriptLoop.simps) simp
    with "1.prems" "1.IH" True show ?thesis by simp
  next
    case False
    then have e: "scriptLoop ars rid idx = idx"
      by (subst scriptLoop.simps) auto
    with "1.prems" False show ?thesis by simp
  qed
qed

lemma scriptLoop_first:
  "idx \<le> k \<Longrightarrow> k < scriptLoop ars rid idx \<Longrightarrow> k < length ars \<Longrightarrow> ar_replyId (ars ! k) \<noteq> rid"
proof (induction ars rid idx rule: scriptLoop.induct)
  case (1 ars rid idx)
  show ?case
  proof (cases "idx < length ars \<and> ar_replyId (ars ! idx) \<noteq> rid")
    case True
    then have e: "scriptLoop ars rid idx = scriptLoop ars rid (idx + 1)"
      by (subst scriptLoop.simps) simp
    show ?thesis
    proof (cases "k = idx")
      case True
      with \<open>idx < length ars \<and> ar_replyId (ars ! idx) \<noteq> rid\<close> show ?thesis by simp
    next
      case False
      with "1.prems" have "idx + 1 \<le> k" by simp
      with "1.IH" True "1.prems" e show ?thesis by simp
    qed
  next
    case False
    then have e: "scriptLoop ars rid idx = idx"
      by (subst scriptLoop.simps) auto
    with "1.prems" show ?thesis by simp
  qed
qed

lemma scriptLoop_none:
  "find (\<lambda>ar. ar_replyId ar = rid) ars = None \<Longrightarrow> scriptLoop ars rid 0 = length ars"
proof -
  assume n: "find (\<lambda>ar. ar_replyId ar = rid) ars = None"
  have b: "scriptLoop ars rid 0 \<le> length ars" using scriptLoop_bounds [of 0 ars rid] by simp
  show ?thesis
  proof (rule ccontr)
    assume "scriptLoop ars rid 0 \<noteq> length ars"
    with b have lt: "scriptLoop ars rid 0 < length ars" by simp
    then have "ar_replyId (ars ! scriptLoop ars rid 0) = rid" by (rule scriptLoop_found)
    moreover from lt have "ars ! scriptLoop ars rid 0 \<in> set ars" by simp
    ultimately show False using n by (auto simp: find_None_iff)
  qed
qed

lemma scriptLoop_some:
  "find (\<lambda>ar. ar_replyId ar = rid) ars = Some x \<Longrightarrow> scriptLoop ars rid 0 < length ars"
proof -
  assume f: "find (\<lambda>ar. ar_replyId ar = rid) ars = Some x"
  then obtain i where i: "i < length ars" "ar_replyId (ars ! i) = rid"
    by (auto simp: find_Some_iff)
  have b: "scriptLoop ars rid 0 \<le> length ars" using scriptLoop_bounds [of 0 ars rid] by simp
  show ?thesis
  proof (rule ccontr)
    assume "\<not> scriptLoop ars rid 0 < length ars"
    with b have "scriptLoop ars rid 0 = length ars" by simp
    with i scriptLoop_first [of 0 i ars rid] show False by simp
  qed
qed

lemma script_frame:
  assumes "script rid p n src = (op, src')"
  shows "article.more src' = article.more src
    \<and> length (articleReplies src') = length (articleReplies src)
    \<and> (\<forall>j < length (articleReplies src).
         articleReplies src' ! j \<noteq> articleReplies src ! j \<longrightarrow>
           ar_replyId (articleReplies src ! j) = rid
           \<and> (\<forall>k < j. ar_replyId (articleReplies src ! k) \<noteq> rid)
           \<and> articleReplies src' ! j =
               (articleReplies src ! j)\<lparr>positiveFeedbackCount := p, negativeFeedbackCount := n\<rparr>)"
proof (cases "scriptLoop (articleReplies src) rid 0 = length (articleReplies src)")
  case True
  with assms have "src' = src" by (simp add: script_def)
  then show ?thesis by simp
next
  case False
  let ?ars = "articleReplies src"
  let ?i = "scriptLoop ?ars rid 0"
  from False scriptLoop_bounds [of 0 ?ars rid] have lt: "?i < length ?ars" by simp
  from False assms have s': "src' = src\<lparr>articleReplies := ?ars[?i := (?ars ! ?i)\<lparr>positiveFeedbackCount := p, negativeFeedbackCount := n\<rparr>]\<rparr>"
    by (simp add: script_def Let_def)
  have found: "ar_replyId (?ars ! ?i) = rid" using lt by (rule scriptLoop_found)
  have first: "\<forall>k < ?i. ar_replyId (?ars ! k) \<noteq> rid"
    using scriptLoop_first [of 0 _ ?ars rid] lt by simp
  show ?thesis
  proof (intro conjI allI impI)
    show "article.more src' = article.more src" using s' by simp
    show "length (articleReplies src') = length ?ars" using s' by simp
  next
    fix j assume j: "j < length ?ars" and ne: "articleReplies src' ! j \<noteq> ?ars ! j"
    from s' ne have ji: "j = ?i" by (cases "j = ?i") simp_all
    show "ar_replyId (?ars ! j) = rid" using ji found by simp
    show "articleReplies src' ! j = (?ars ! j)\<lparr>positiveFeedbackCount := p, negativeFeedbackCount := n\<rparr>"
      using s' ji lt by simp
    fix k assume "k < j"
    with ji first show "ar_replyId (?ars ! k) \<noteq> rid" by simp
  qed
qed

section \<open>Properties of updateArticleReplyByFeedbacks\<close>

lemma update_absent: "map_of idx k = None \<Longrightarrow> AList.update k v idx = idx @ [(k, v)]"
  by (induction idx) (auto split: if_splits)

lemma update_last_entry:
  "map_of base k = None \<Longrightarrow> AList.update k v (base @ [(k, w)]) = base @ [(k, v)]"
  by (induction base) (auto split: if_splits)

lemma updateArticleReplyByFeedbacks_others:
  assumes "updateArticleReplyByFeedbacks s aid rid fs = (s', out)"
  shows "articlereplyfeedbacks s' = articlereplyfeedbacks s \<and> replies s' = replies s
         \<and> docLoads s' = docLoads s \<and> state.more s' = state.more s"
  using assms
  by (auto simp: updateArticleReplyByFeedbacks_def clientUpdateScript_def Let_def
           split: prod.splits sum.splits option.splits ctx_op.splits if_splits)

lemma updateArticleReplyByFeedbacks_articles:
  assumes "updateArticleReplyByFeedbacks s aid rid fs = (s', out)"
  shows "articles s' = articles s
         \<or> (\<exists>src src'. map_of (articles s) aid = Some src
              \<and> script rid (fst (feedbackCounts fs)) (snd (feedbackCounts fs)) src = (OpIndex, src')
              \<and> articles s' = AList.update aid src' (articles s))"
  using assms
  by (auto simp: updateArticleReplyByFeedbacks_def clientUpdateScript_def Let_def
           split: prod.splits sum.splits option.splits ctx_op.splits if_splits)

lemma updateArticleReplyByFeedbacks_absent:
  assumes "map_of (articles s) aid = Some art"
    and "find (\<lambda>ar. ar_replyId ar = rid) (articleReplies art) = None"
  shows "updateArticleReplyByFeedbacks s aid rid fs = (s, Inl (CannotUpdateFeedbackCount aid))"
  using assms scriptLoop_none [OF assms(2)]
  by (simp add: updateArticleReplyByFeedbacks_def clientUpdateScript_def script_def Let_def
           split: prod.splits)

text \<open>
  When the article has an entry for the reply the function returns, and the entry it
  returns carries the two counts of the records it was given.
\<close>

lemma updateArticleReplyByFeedbacks_found:
  assumes a: "map_of (articles s) aid = Some art"
    and f: "find (\<lambda>ar. ar_replyId ar = rid) (articleReplies art) = Some ar"
  shows "\<exists>s'. updateArticleReplyByFeedbacks s aid rid fs =
           (s', Inr (Some (ar\<lparr>positiveFeedbackCount := fst (feedbackCounts fs),
                               negativeFeedbackCount := snd (feedbackCounts fs)\<rparr>)))"
proof -
  let ?ars = "articleReplies art"
  let ?i = "scriptLoop ?ars rid 0"
  let ?P = "\<lambda>ar. ar_replyId ar = rid"
  let ?p = "fst (feedbackCounts fs)" and ?n = "snd (feedbackCounts fs)"
  let ?e = "(?ars ! ?i)\<lparr>positiveFeedbackCount := ?p, negativeFeedbackCount := ?n\<rparr>"
  have lt: "?i < length ?ars" using f by (rule scriptLoop_some)
  have hit: "?P (?ars ! ?i)" using lt by (rule scriptLoop_found)
  have first: "\<forall>k < ?i. \<not> ?P (?ars ! k)"
    using scriptLoop_first [of 0 _ ?ars rid] lt by simp
  from lt hit first have "find ?P ?ars = Some (?ars ! ?i)"
    by (auto simp: find_Some_iff)
  with f have ar: "ar = ?ars ! ?i" by simp
  have "find ?P (?ars[?i := ?e]) = Some ?e"
    unfolding find_Some_iff
  proof (intro exI [of _ ?i] conjI allI impI)
    show "?i < length (?ars[?i := ?e])" using lt by simp
    show "ar_replyId (?ars[?i := ?e] ! ?i) = rid" using lt hit by simp
    show "?e = ?ars[?i := ?e] ! ?i" using lt by simp
    fix j assume "j < ?i"
    with first show "ar_replyId (?ars[?i := ?e] ! j) \<noteq> rid" by simp
  qed
  with a lt ar show ?thesis
    by (cases "feedbackCounts fs")
       (simp add: updateArticleReplyByFeedbacks_def clientUpdateScript_def script_def Let_def)
qed

section \<open>Properties of the mutation\<close>

lemma recount_others:
  assumes "recount s aid rid = (s', out)"
  shows "articlereplyfeedbacks s' = articlereplyfeedbacks s \<and> replies s' = replies s
         \<and> docLoads s' = docLoads s"
proof -
  obtain s3 o3 where u: "updateArticleReplyByFeedbacks s aid rid
             (articleReplyFeedbacksLoader (articlereplyfeedbacks s) aid rid) = (s3, o3)"
    by (cases "updateArticleReplyByFeedbacks s aid rid
             (articleReplyFeedbacksLoader (articlereplyfeedbacks s) aid rid)")
  with assms have "s' = s3"
    by (auto simp: recount_def split: sum.splits option.splits)
  with updateArticleReplyByFeedbacks_others [OF u] show ?thesis by simp
qed

lemma resolve_existing:
  assumes "map_of (articlereplyfeedbacks s) (getArticleReplyFeedbackId aid rid (user_id u) (user_appId u)) = Some r"
  shows "resolve g s now aid rid vote cmt (Some u) =
     recount (s\<lparr>articlereplyfeedbacks :=
               AList.update (getArticleReplyFeedbackId aid rid (user_id u) (user_appId u))
                 (voteDoc vote cmt now r) (articlereplyfeedbacks s)\<rparr>) aid rid"
  using assms
  by (simp add: resolve_def recount_def clientUpdate_def assertUser_def Let_def AList.update_triv)

lemma resolve_new:
  assumes "map_of (articlereplyfeedbacks s) (getArticleReplyFeedbackId aid rid (user_id u) (user_appId u)) = None"
  shows "resolve g s now aid rid vote cmt (Some u) =
     (case fillAuthors (s\<lparr>articlereplyfeedbacks := articlereplyfeedbacks s @
               [(getArticleReplyFeedbackId aid rid (user_id u) (user_appId u),
                 upsertDoc g now aid rid vote cmt u)]\<rparr>)
              (getArticleReplyFeedbackId aid rid (user_id u) (user_appId u)) aid rid of
        (s2, Inl e) \<Rightarrow> (s2, Inl e)
      | (s2, Inr _) \<Rightarrow> recount s2 aid rid)"
  using assms
  by (simp add: resolve_def recount_def clientUpdate_def assertUser_def Let_def update_absent upsertDoc_def
           split: prod.splits sum.splits)

lemma fillAuthors_effect:
  assumes "articlereplyfeedbacks s = base @ [(fid, r)]" and "map_of base fid = None"
    and "fillAuthors s fid aid rid = (s', out)"
  shows "docLoads s' = docLoads s @ [(''replies'', rid), (''articles'', aid)]
     \<and> articles s' = articles s \<and> replies s' = replies s
     \<and> (case out of
          Inl e \<Rightarrow> articlereplyfeedbacks s' = articlereplyfeedbacks s
        | Inr _ \<Rightarrow> (\<exists>rep art ar. map_of (replies s) rid = Some rep \<and> map_of (articles s) aid = Some art
             \<and> find (\<lambda>ar. ar_replyId ar = rid) (articleReplies art) = Some ar
             \<and> articlereplyfeedbacks s' = base @ [(fid, authorDoc (reply_userId rep) (ar_userId ar) r)]))"
proof -
  from assms(1,2) have m: "map_of (articlereplyfeedbacks s) fid = Some r"
    by (simp add: map_add_def)
  show ?thesis
    using assms(3) m assms(1) assms(2)
    by (auto simp: fillAuthors_def loadDoc_def clientUpdate_def Let_def update_last_entry
             split: sum.splits option.splits if_splits)
qed

text \<open>
  C2, as the claim states it, fails: on an article whose list has no entry for the reply,
  \<open>updateArticleReplyByFeedbacks\<close> throws (line 93). Article A1 has no entry for R3.
\<close>

theorem updateArticleReplyByFeedbacks_raises:
  "updateArticleReplyByFeedbacks store0 ''A1'' ''R3'' [fb ''U1'' 1 ''NORMAL'']
     = (store0, Inl (CannotUpdateFeedbackCount ''A1''))"
  by (simp add: updateArticleReplyByFeedbacks_def clientUpdateScript_def script_def Let_def
        store0_def article1_def scriptLoop.simps feedbackCounts_def fb_def)

text \<open>
  C2, amended: when the article's list has no entry with the given replyId, the script
  sets \<^verbatim>\<open>ctx.op = 'none'\<close> and changes nothing, so that the update reports
  \<^verbatim>\<open>noop\<close>; the function then throws, because the result is not \<^verbatim>\<open>updated\<close>,
  and leaves the stored state as it was.
\<close>

theorem updateArticleReplyByFeedbacks_no_entry:
  assumes "map_of (articles s) aid = Some art"
    and "find (\<lambda>ar. ar_replyId ar = rid) (articleReplies art) = None"
  shows "script rid (fst (feedbackCounts fs)) (snd (feedbackCounts fs)) art = (OpNone, art)
         \<and> updateArticleReplyByFeedbacks s aid rid fs = (s, Inl (CannotUpdateFeedbackCount aid))"
  using updateArticleReplyByFeedbacks_absent [OF assms] scriptLoop_none [OF assms(2)]
  by (simp add: script_def)

theorem updateArticleReplyByFeedbacks_no_entry_witness:
  "map_of (articles store0) ''A1'' = Some article1
   \<and> find (\<lambda>ar. ar_replyId ar = ''R3'') (articleReplies article1) = None
   \<and> script ''R3'' 0 0 article1 = (OpNone, article1)
   \<and> updateArticleReplyByFeedbacks store0 ''A1'' ''R3'' [] = (store0, Inl (CannotUpdateFeedbackCount ''A1''))"
proof -
  have a: "map_of (articles store0) ''A1'' = Some article1" by (simp add: store0_def)
  have b: "find (\<lambda>ar. ar_replyId ar = ''R3'') (articleReplies article1) = None"
    by (simp add: article1_def)
  from updateArticleReplyByFeedbacks_no_entry [OF a b, of "[]"] a b show ?thesis
    by (simp add: feedbackCounts_def)
qed

text \<open>
  C4: whatever \<open>updateArticleReplyByFeedbacks\<close> returns or throws, the feedback records,
  the replies and the ids of the articles are as before; every article other than
  \<open>aid\<close> is unchanged; and in the article \<open>aid\<close> the fields outside
  \<^verbatim>\<open>articleReplies\<close> and the length of the list are unchanged, and an entry that differs
  from before is the first entry whose replyId is \<open>rid\<close>, equal to the old entry with
  the two counters overwritten.
\<close>

theorem updateArticleReplyByFeedbacks_frame:
  assumes "updateArticleReplyByFeedbacks s aid rid fs = (s', out)"
  shows "articlereplyfeedbacks s' = articlereplyfeedbacks s \<and> replies s' = replies s
    \<and> docLoads s' = docLoads s
    \<and> map fst (articles s') = map fst (articles s)
    \<and> (\<forall>i src. map_of (articles s) i = Some src \<longrightarrow>
         (\<exists>src'. map_of (articles s') i = Some src'
            \<and> (i \<noteq> aid \<longrightarrow> src' = src)
            \<and> article.more src' = article.more src
            \<and> length (articleReplies src') = length (articleReplies src)
            \<and> (\<forall>j < length (articleReplies src).
                 articleReplies src' ! j \<noteq> articleReplies src ! j \<longrightarrow>
                   ar_replyId (articleReplies src ! j) = rid
                   \<and> (\<forall>k < j. ar_replyId (articleReplies src ! k) \<noteq> rid)
                   \<and> articleReplies src' ! j =
                       (articleReplies src ! j)
                         \<lparr>positiveFeedbackCount := fst (feedbackCounts fs),
                          negativeFeedbackCount := snd (feedbackCounts fs)\<rparr>)))"
proof -
  note o = updateArticleReplyByFeedbacks_others [OF assms]
  from updateArticleReplyByFeedbacks_articles [OF assms]
  consider (same) "articles s' = articles s"
    | (upd) src0 src1 where "map_of (articles s) aid = Some src0"
        "script rid (fst (feedbackCounts fs)) (snd (feedbackCounts fs)) src0 = (OpIndex, src1)"
        "articles s' = AList.update aid src1 (articles s)"
    by blast
  then show ?thesis
  proof cases
    case same
    with o show ?thesis by simp
  next
    case upd
    note f = script_frame [OF upd(2)]
    from upd(1) have "aid \<in> set (map fst (articles s))"
      by (metis map_of_eq_None_iff option.distinct(1) set_map)
    with upd(3) have keys: "map fst (articles s') = map fst (articles s)"
      by (simp add: AList.update_keys)
    have docs: "\<exists>src'. map_of (articles s') i = Some src'
            \<and> (i \<noteq> aid \<longrightarrow> src' = src)
            \<and> article.more src' = article.more src
            \<and> length (articleReplies src') = length (articleReplies src)
            \<and> (\<forall>j < length (articleReplies src).
                 articleReplies src' ! j \<noteq> articleReplies src ! j \<longrightarrow>
                   ar_replyId (articleReplies src ! j) = rid
                   \<and> (\<forall>k < j. ar_replyId (articleReplies src ! k) \<noteq> rid)
                   \<and> articleReplies src' ! j =
                       (articleReplies src ! j)
                         \<lparr>positiveFeedbackCount := fst (feedbackCounts fs),
                          negativeFeedbackCount := snd (feedbackCounts fs)\<rparr>)"
      if m: "map_of (articles s) i = Some src" for i src
    proof (cases "i = aid")
      case True
      with m upd(1) have "src0 = src" by simp
      with f upd(3) True show ?thesis by (simp add: AList.update_conv')
    next
      case False
      with m upd(3) show ?thesis by (simp add: AList.update_conv')
    qed
    from o keys docs show ?thesis by blast
  qed
qed

theorem updateArticleReplyByFeedbacks_frame_witness:
  "updateArticleReplyByFeedbacks store0 ''A1'' ''R2'' [fb ''U1'' 1 ''NORMAL'']
     = (store0\<lparr>articles := [(''A1'', article1\<lparr>articleReplies :=
           [\<lparr>ar_replyId = ''R1'', ar_userId = ''E1'',
             positiveFeedbackCount = 0, negativeFeedbackCount = 0\<rparr>,
            \<lparr>ar_replyId = ''R2'', ar_userId = ''E2'',
             positiveFeedbackCount = 1, negativeFeedbackCount = 0\<rparr>]\<rparr>), (''A2'', article2)]\<rparr>,
        Inr (Some \<lparr>ar_replyId = ''R2'', ar_userId = ''E2'',
             positiveFeedbackCount = 1, negativeFeedbackCount = 0\<rparr>))
   \<and> map fst (articles (fst (updateArticleReplyByFeedbacks store0 ''A1'' ''R2'' [fb ''U1'' 1 ''NORMAL''])))
       = [''A1'', ''A2'']"
proof -
  have e: "updateArticleReplyByFeedbacks store0 ''A1'' ''R2'' [fb ''U1'' 1 ''NORMAL'']
     = (store0\<lparr>articles := [(''A1'', article1\<lparr>articleReplies :=
           [\<lparr>ar_replyId = ''R1'', ar_userId = ''E1'',
             positiveFeedbackCount = 0, negativeFeedbackCount = 0\<rparr>,
            \<lparr>ar_replyId = ''R2'', ar_userId = ''E2'',
             positiveFeedbackCount = 1, negativeFeedbackCount = 0\<rparr>]\<rparr>), (''A2'', article2)]\<rparr>,
        Inr (Some \<lparr>ar_replyId = ''R2'', ar_userId = ''E2'',
             positiveFeedbackCount = 1, negativeFeedbackCount = 0\<rparr>))"
    by (simp add: updateArticleReplyByFeedbacks_def clientUpdateScript_def script_def Let_def
        store0_def article1_def scriptLoop.simps feedbackCounts_def fb_def)
  from updateArticleReplyByFeedbacks_frame [OF e] e show ?thesis
    by (simp add: store0_def)
qed

text \<open>
  C8: without an authenticated user \<open>resolve\<close> fails with Unauthenticated and the
  state it leaves is the state it was given: no upsert, no back-fill, no counter update.
\<close>

theorem resolve_unauthenticated:
  "resolve getContentDefaultStatus s now aid rid vote cmt None = (s, Inl Unauthenticated)"
  by (simp add: resolve_def assertUser_def)

theorem resolve_unauthenticated_witness:
  "resolve normalStatus store0 ''t1'' ''A1'' ''R1'' 1 (Str ''good'') None
     = (store0, Inl Unauthenticated)"
  using resolve_unauthenticated [of normalStatus store0 "''t1''" "''A1''" "''R1''" 1 "Str ''good''"]
  by simp

text \<open>
  C5: when there is no feedback record under the key yet, the reply and the article are
  found, and the article's list has no entry with the given replyId, \<open>resolve\<close> throws
  the error of line 185 (no article-reply found). The state it leaves differs from the
  one it was given by the new feedback record, whose replyUserId and articleReplyUserId
  are not set, and by the two loads: the upsert is not undone.
\<close>

theorem resolve_missing_entry:
  assumes "map_of (articlereplyfeedbacks s) (getArticleReplyFeedbackId aid rid (user_id u) (user_appId u)) = None"
    and "map_of (replies s) rid = Some rep"
    and "map_of (articles s) aid = Some art"
    and "find (\<lambda>ar. ar_replyId ar = rid) (articleReplies art) = None"
  shows "resolve g s now aid rid vote cmt (Some u) =
           (s\<lparr>articlereplyfeedbacks := articlereplyfeedbacks s @
                 [(getArticleReplyFeedbackId aid rid (user_id u) (user_appId u),
                   upsertDoc g now aid rid vote cmt u)],
              docLoads := docLoads s @ [(''replies'', rid), (''articles'', aid)]\<rparr>,
            Inl (CannotFindArticleReply aid rid))
         \<and> replyUserId (upsertDoc g now aid rid vote cmt u) = None
         \<and> articleReplyUserId (upsertDoc g now aid rid vote cmt u) = None"
  using assms(2-4)
  by (simp add: resolve_new [OF assms(1)] fillAuthors_def loadDoc_def Let_def upsertDoc_def)

theorem resolve_missing_entry_witness:
  "resolve normalStatus store0 ''t1'' ''A1'' ''R3'' 1 (Str ''ok'') (Some user1) =
     (store0\<lparr>articlereplyfeedbacks :=
        [(''A1__R3__U1__web'',
          \<lparr>articleId = ''A1'', replyId = ''R3'', userId = ''U1'', appId = ''web'',
           score = 1, createdAt = ''t1'', updatedAt = ''t1'', comment = Str ''ok'',
           status = ''NORMAL'', replyUserId = None, articleReplyUserId = None\<rparr>)],
        docLoads := [(''replies'', ''R3''), (''articles'', ''A1'')]\<rparr>,
      Inl (CannotFindArticleReply ''A1'' ''R3''))"
proof -
  have a: "map_of (articlereplyfeedbacks store0)
             (getArticleReplyFeedbackId ''A1'' ''R3'' (user_id user1) (user_appId user1)) = None"
    by (simp add: store0_def)
  have b: "map_of (replies store0) ''R3'' = Some \<lparr>reply_userId = ''W3''\<rparr>"
    by (simp add: store0_def)
  have c: "map_of (articles store0) ''A1'' = Some article1"
    by (simp add: store0_def)
  have d: "find (\<lambda>ar. ar_replyId ar = ''R3'') (articleReplies article1) = None"
    by (simp add: article1_def)
  from resolve_missing_entry [OF a b c d, of normalStatus "''t1''" 1 "Str ''ok''"] show ?thesis
    by (simp add: upsertDoc_def getArticleReplyFeedbackId_def user1_def normalStatus_def store0_def)
qed

lemma fillAuthors_found:
  assumes "articlereplyfeedbacks s = base @ [(fid, r)]" and "map_of base fid = None"
    and "map_of (replies s) rid = Some rep" and "map_of (articles s) aid = Some art"
    and "find (\<lambda>ar. ar_replyId ar = rid) (articleReplies art) = Some ar"
  shows "fillAuthors s fid aid rid =
           (s\<lparr>docLoads := docLoads s @ [(''replies'', rid), (''articles'', aid)],
              articlereplyfeedbacks := base @ [(fid, authorDoc (reply_userId rep) (ar_userId ar) r)]\<rparr>,
            Inr ())"
proof -
  from assms(1,2) have m: "map_of (articlereplyfeedbacks s) fid = Some r"
    by (simp add: map_add_def)
  show ?thesis
    using m assms
    by (auto simp: fillAuthors_def loadDoc_def clientUpdate_def Let_def update_last_entry)
qed

lemma voteDoc_authors:
  "replyUserId (voteDoc vote cmt now r) = replyUserId r
   \<and> articleReplyUserId (voteDoc vote cmt now r) = articleReplyUserId r"
  by (simp add: voteDoc_def)

text \<open>
  C6: the back-fill runs exactly when the upsert creates the record. When a record is
  already stored under the key, as on a second vote of the same identity, the call makes
  no load through the document loader and leaves replyUserId and articleReplyUserId of
  the record as they were. When no record is stored under the key, the call loads the
  reply and the article, and where both are found and the article has an entry for the
  reply the record then holds the two author ids.
\<close>

theorem resolve_fills_authors_once:
  assumes "resolve g s now aid rid vote cmt (Some u) = (s', out)"
  shows
    "(\<forall>r. map_of (articlereplyfeedbacks s) (getArticleReplyFeedbackId aid rid (user_id u) (user_appId u)) = Some r \<longrightarrow>
        docLoads s' = docLoads s
        \<and> (\<exists>r'. map_of (articlereplyfeedbacks s') (getArticleReplyFeedbackId aid rid (user_id u) (user_appId u)) = Some r'
              \<and> replyUserId r' = replyUserId r \<and> articleReplyUserId r' = articleReplyUserId r))
   \<and> (map_of (articlereplyfeedbacks s) (getArticleReplyFeedbackId aid rid (user_id u) (user_appId u)) = None \<longrightarrow>
        docLoads s' = docLoads s @ [(''replies'', rid), (''articles'', aid)]
        \<and> (\<forall>rep art ar. map_of (replies s) rid = Some rep \<and> map_of (articles s) aid = Some art
              \<and> find (\<lambda>ar. ar_replyId ar = rid) (articleReplies art) = Some ar \<longrightarrow>
              (\<exists>r'. map_of (articlereplyfeedbacks s') (getArticleReplyFeedbackId aid rid (user_id u) (user_appId u)) = Some r'
                 \<and> replyUserId r' = Some (reply_userId rep)
                 \<and> articleReplyUserId r' = Some (ar_userId ar))))"
proof (intro conjI allI impI)
  let ?fid = "getArticleReplyFeedbackId aid rid (user_id u) (user_appId u)"
  fix r assume m: "map_of (articlereplyfeedbacks s) ?fid = Some r"
  let ?s1 = "s\<lparr>articlereplyfeedbacks := AList.update ?fid (voteDoc vote cmt now r) (articlereplyfeedbacks s)\<rparr>"
  from assms resolve_existing [OF m] have "recount ?s1 aid rid = (s', out)" by simp
  from recount_others [OF this]
  have fb: "articlereplyfeedbacks s' = AList.update ?fid (voteDoc vote cmt now r) (articlereplyfeedbacks s)"
    and dl: "docLoads s' = docLoads s" by simp_all
  show "docLoads s' = docLoads s" by (rule dl)
  from fb have "map_of (articlereplyfeedbacks s') ?fid = Some (voteDoc vote cmt now r)"
    by (simp add: AList.update_conv')
  then show "\<exists>r'. map_of (articlereplyfeedbacks s') ?fid = Some r'
              \<and> replyUserId r' = replyUserId r \<and> articleReplyUserId r' = articleReplyUserId r"
    by (simp add: voteDoc_authors)
next
  let ?fid = "getArticleReplyFeedbackId aid rid (user_id u) (user_appId u)"
  let ?up = "upsertDoc g now aid rid vote cmt u"
  let ?s1 = "s\<lparr>articlereplyfeedbacks := articlereplyfeedbacks s @ [(?fid, ?up)]\<rparr>"
  assume m: "map_of (articlereplyfeedbacks s) ?fid = None"
  obtain s2 o2 where f: "fillAuthors ?s1 ?fid aid rid = (s2, o2)"
    by (cases "fillAuthors ?s1 ?fid aid rid")
  have b: "articlereplyfeedbacks ?s1 = articlereplyfeedbacks s @ [(?fid, ?up)]" by simp
  note eff = fillAuthors_effect [OF b m f]
  from assms resolve_new [OF m, of g now vote cmt] f
  have r: "(case o2 of Inl e \<Rightarrow> (s2, Inl e) | Inr _ \<Rightarrow> recount s2 aid rid) = (s', out)"
    by simp
  have same: "docLoads s' = docLoads s2 \<and> articlereplyfeedbacks s' = articlereplyfeedbacks s2"
  proof (cases o2)
    case (Inl e)
    with r show ?thesis by simp
  next
    case (Inr x)
    with r have "recount s2 aid rid = (s', out)" by simp
    from recount_others [OF this] show ?thesis by simp
  qed
  with eff show "docLoads s' = docLoads s @ [(''replies'', rid), (''articles'', aid)]" by simp
  fix rep art ar
  assume found: "map_of (replies s) rid = Some rep \<and> map_of (articles s) aid = Some art
              \<and> find (\<lambda>ar. ar_replyId ar = rid) (articleReplies art) = Some ar"
  then have "fillAuthors ?s1 ?fid aid rid =
           (?s1\<lparr>docLoads := docLoads ?s1 @ [(''replies'', rid), (''articles'', aid)],
              articlereplyfeedbacks := articlereplyfeedbacks s @ [(?fid, authorDoc (reply_userId rep) (ar_userId ar) ?up)]\<rparr>,
            Inr ())"
    using fillAuthors_found [OF b m, of rid rep aid art ar] by simp
  with f have "articlereplyfeedbacks s2 = articlereplyfeedbacks s @ [(?fid, authorDoc (reply_userId rep) (ar_userId ar) ?up)]"
    by auto
  with same m have "map_of (articlereplyfeedbacks s') ?fid = Some (authorDoc (reply_userId rep) (ar_userId ar) ?up)"
    by (simp add: map_add_def)
  then show "\<exists>r'. map_of (articlereplyfeedbacks s') ?fid = Some r'
                 \<and> replyUserId r' = Some (reply_userId rep)
                 \<and> articleReplyUserId r' = Some (ar_userId ar)"
    by (simp add: authorDoc_def)
qed

section \<open>The two votes of the example\<close>

lemmas eval_defs = resolve_def assertUser_def clientUpdate_def fillAuthors_def loadDoc_def
  articleReplyFeedbacksLoader_def updateArticleReplyByFeedbacks_def clientUpdateScript_def
  script_def scriptLoop.simps feedbackCounts_def voteDoc_def authorDoc_def
  getArticleReplyFeedbackId_def Let_def

lemma first_vote:
  "resolve normalStatus store0 ''t1'' ''A1'' ''R1'' 1 (Str ''good'') (Some user1)
     = (store1, Inr (''A1'', \<lparr>ar_replyId = ''R1'', ar_userId = ''E1'',
              positiveFeedbackCount = 1, negativeFeedbackCount = 0\<rparr>))"
  by (simp add: eval_defs store0_def store1_def article1_def user1_def normalStatus_def)

lemma second_vote:
  "resolve normalStatus store1 ''t2'' ''A1'' ''R1'' (- 1) Undefined (Some user1)
     = (store1\<lparr>articlereplyfeedbacks :=
        [(''A1__R1__U1__web'',
          \<lparr>articleId = ''A1'', replyId = ''R1'', userId = ''U1'', appId = ''web'',
           score = - 1, createdAt = ''t1'', updatedAt = ''t2'', comment = Str ''good'',
           status = ''NORMAL'', replyUserId = Some ''W1'', articleReplyUserId = Some ''E1''\<rparr>)],
      articles :=
        [(''A1'', article1\<lparr>articleReplies :=
            [\<lparr>ar_replyId = ''R1'', ar_userId = ''E1'',
              positiveFeedbackCount = 0, negativeFeedbackCount = 1\<rparr>,
             \<lparr>ar_replyId = ''R2'', ar_userId = ''E2'',
              positiveFeedbackCount = 3, negativeFeedbackCount = 4\<rparr>]\<rparr>),
         (''A2'', article2)]\<rparr>, Inr (''A1'', \<lparr>ar_replyId = ''R1'', ar_userId = ''E1'',
              positiveFeedbackCount = 0, negativeFeedbackCount = 1\<rparr>))"
  by (simp add: eval_defs store0_def store1_def article1_def user1_def normalStatus_def)

theorem resolve_fills_authors_once_witness:
  "resolve normalStatus store0 ''t1'' ''A1'' ''R1'' 1 (Str ''good'') (Some user1)
     = (store1, Inr (''A1'', \<lparr>ar_replyId = ''R1'', ar_userId = ''E1'',
              positiveFeedbackCount = 1, negativeFeedbackCount = 0\<rparr>))
   \<and> docLoads store1 = docLoads store0 @ [(''replies'', ''R1''), (''articles'', ''A1'')]
   \<and> map_option replyUserId (map_of (articlereplyfeedbacks store1) ''A1__R1__U1__web'') = Some (Some ''W1'')
   \<and> map_option articleReplyUserId (map_of (articlereplyfeedbacks store1) ''A1__R1__U1__web'') = Some (Some ''E1'')
   \<and> docLoads (fst (resolve normalStatus store1 ''t2'' ''A1'' ''R1'' (- 1) Undefined (Some user1)))
       = docLoads store1
   \<and> map_option replyUserId (map_of (articlereplyfeedbacks
         (fst (resolve normalStatus store1 ''t2'' ''A1'' ''R1'' (- 1) Undefined (Some user1))))
         ''A1__R1__U1__web'') = Some (Some ''W1'')
   \<and> map_option articleReplyUserId (map_of (articlereplyfeedbacks
         (fst (resolve normalStatus store1 ''t2'' ''A1'' ''R1'' (- 1) Undefined (Some user1))))
         ''A1__R1__U1__web'') = Some (Some ''E1'')"
proof -
  let ?fid = "getArticleReplyFeedbackId ''A1'' ''R1'' (user_id user1) (user_appId user1)"
  have fid: "?fid = ''A1__R1__U1__web''"
    by (simp add: getArticleReplyFeedbackId_def user1_def)
  have none: "map_of (articlereplyfeedbacks store0) ?fid = None"
    by (simp add: store0_def)
  have found: "map_of (replies store0) ''R1'' = Some \<lparr>reply_userId = ''W1''\<rparr>
     \<and> map_of (articles store0) ''A1'' = Some article1
     \<and> find (\<lambda>ar. ar_replyId ar = ''R1'') (articleReplies article1)
         = Some \<lparr>ar_replyId = ''R1'', ar_userId = ''E1'',
              positiveFeedbackCount = 0, negativeFeedbackCount = 0\<rparr>"
    by (simp add: store0_def article1_def)
  from resolve_fills_authors_once [OF first_vote] none found
  have one: "docLoads store1 = docLoads store0 @ [(''replies'', ''R1''), (''articles'', ''A1'')]
     \<and> (\<exists>r'. map_of (articlereplyfeedbacks store1) ?fid = Some r'
           \<and> replyUserId r' = Some ''W1'' \<and> articleReplyUserId r' = Some ''E1'')"
    by fastforce
  obtain r where some: "map_of (articlereplyfeedbacks store1) ?fid = Some r"
      and r: "replyUserId r = Some ''W1''" "articleReplyUserId r = Some ''E1''"
    using one by blast
  have sp: "resolve normalStatus store1 ''t2'' ''A1'' ''R1'' (- 1) Undefined (Some user1)
      = (fst (resolve normalStatus store1 ''t2'' ''A1'' ''R1'' (- 1) Undefined (Some user1)),
         snd (resolve normalStatus store1 ''t2'' ''A1'' ''R1'' (- 1) Undefined (Some user1)))"
    by simp
  from resolve_fills_authors_once [OF sp] some r
  have two: "docLoads (fst (resolve normalStatus store1 ''t2'' ''A1'' ''R1'' (- 1) Undefined (Some user1)))
       = docLoads store1
     \<and> (\<exists>r'. map_of (articlereplyfeedbacks
         (fst (resolve normalStatus store1 ''t2'' ''A1'' ''R1'' (- 1) Undefined (Some user1)))) ?fid = Some r'
           \<and> replyUserId r' = Some ''W1'' \<and> articleReplyUserId r' = Some ''E1'')"
    by fastforce
  from one two first_vote show ?thesis
    unfolding fid by auto
qed

section \<open>The comment of a later vote\<close>

text \<open>
  C10, as the claim states it, fails for a comment that is undefined: user U1, whose
  record holds the comment good, votes again without a comment, and the record still
  holds the comment good.
\<close>

theorem resolve_keeps_comment:
  "map_option comment (map_of (articlereplyfeedbacks
      (fst (resolve normalStatus store1 ''t2'' ''A1'' ''R1'' (- 1) Undefined (Some user1))))
      ''A1__R1__U1__web'') = Some (Str ''good'')"
  by (simp add: second_vote)

text \<open>
  C10, amended: when a record is stored under the key and the vote's comment is null, the
  stored comment is overwritten with null; when the vote's comment is undefined, the
  stored comment is kept.
\<close>

theorem resolve_comment:
  assumes "map_of (articlereplyfeedbacks s) (getArticleReplyFeedbackId aid rid (user_id u) (user_appId u)) = Some r"
  shows "\<exists>r'. map_of (articlereplyfeedbacks (fst (resolve g s now aid rid vote cmt (Some u))))
                 (getArticleReplyFeedbackId aid rid (user_id u) (user_appId u)) = Some r'
           \<and> (cmt = Null \<longrightarrow> comment r' = Null)
           \<and> (cmt = Undefined \<longrightarrow> comment r' = comment r)"
proof -
  let ?fid = "getArticleReplyFeedbackId aid rid (user_id u) (user_appId u)"
  let ?s1 = "s\<lparr>articlereplyfeedbacks := AList.update ?fid (voteDoc vote cmt now r) (articlereplyfeedbacks s)\<rparr>"
  have "recount ?s1 aid rid = (fst (resolve g s now aid rid vote cmt (Some u)), snd (resolve g s now aid rid vote cmt (Some u)))"
    using resolve_existing [OF assms, of g now vote cmt] by simp
  from recount_others [OF this]
  have "map_of (articlereplyfeedbacks (fst (resolve g s now aid rid vote cmt (Some u)))) ?fid
          = Some (voteDoc vote cmt now r)"
    by (simp add: AList.update_conv')
  then show ?thesis by (simp add: voteDoc_def)
qed

theorem resolve_comment_witness:
  "map_option comment (map_of (articlereplyfeedbacks store1) ''A1__R1__U1__web'') = Some (Str ''good'')
   \<and> map_option comment (map_of (articlereplyfeedbacks
      (fst (resolve normalStatus store1 ''t2'' ''A1'' ''R1'' (- 1) Null (Some user1))))
      ''A1__R1__U1__web'') = Some Null"
proof -
  let ?fid = "getArticleReplyFeedbackId ''A1'' ''R1'' (user_id user1) (user_appId user1)"
  have fid: "?fid = ''A1__R1__U1__web''"
    by (simp add: getArticleReplyFeedbackId_def user1_def)
  have some: "map_of (articlereplyfeedbacks store1) ?fid = Some
          \<lparr>articleId = ''A1'', replyId = ''R1'', userId = ''U1'', appId = ''web'',
           score = 1, createdAt = ''t1'', updatedAt = ''t1'', comment = Str ''good'',
           status = ''NORMAL'', replyUserId = Some ''W1'', articleReplyUserId = Some ''E1''\<rparr>"
    by (simp add: store1_def fid)
  from resolve_comment [OF some, of normalStatus "''t2''" "- 1" Null] some show ?thesis
    unfolding fid by auto
qed

section \<open>Sequences of votes by one identity\<close>

lemma resolve_step_existing:
  assumes "articlereplyfeedbacks s = base @ [(getArticleReplyFeedbackId aid rid (user_id u) (user_appId u), r)]"
    and "map_of base (getArticleReplyFeedbackId aid rid (user_id u) (user_appId u)) = None"
  shows "articlereplyfeedbacks (fst (resolve g s now aid rid vote cmt (Some u)))
           = base @ [(getArticleReplyFeedbackId aid rid (user_id u) (user_appId u), voteDoc vote cmt now r)]"
proof -
  let ?fid = "getArticleReplyFeedbackId aid rid (user_id u) (user_appId u)"
  let ?res = "resolve g s now aid rid vote cmt (Some u)"
  from assms have m: "map_of (articlereplyfeedbacks s) ?fid = Some r"
    by (simp add: map_add_def)
  have "recount (s\<lparr>articlereplyfeedbacks := AList.update ?fid (voteDoc vote cmt now r) (articlereplyfeedbacks s)\<rparr>) aid rid
          = (fst ?res, snd ?res)"
    using resolve_existing [OF m, of g now vote cmt] by simp
  from recount_others [OF this] assms show ?thesis
    by (simp add: update_last_entry)
qed

lemma resolve_step_new:
  assumes "map_of (articlereplyfeedbacks s) (getArticleReplyFeedbackId aid rid (user_id u) (user_appId u)) = None"
  shows "\<exists>r. articlereplyfeedbacks (fst (resolve g s now aid rid vote cmt (Some u)))
               = articlereplyfeedbacks s @ [(getArticleReplyFeedbackId aid rid (user_id u) (user_appId u), r)]
           \<and> (articleId r, replyId r, userId r, appId r) = (aid, rid, user_id u, user_appId u)
           \<and> score r = vote \<and> createdAt r = now \<and> updatedAt r = now \<and> comment r = cmt"
proof -
  let ?fid = "getArticleReplyFeedbackId aid rid (user_id u) (user_appId u)"
  let ?up = "upsertDoc g now aid rid vote cmt u"
  let ?s1 = "s\<lparr>articlereplyfeedbacks := articlereplyfeedbacks s @ [(?fid, ?up)]\<rparr>"
  let ?res = "resolve g s now aid rid vote cmt (Some u)"
  obtain s2 o2 where f: "fillAuthors ?s1 ?fid aid rid = (s2, o2)"
    by (cases "fillAuthors ?s1 ?fid aid rid")
  have b: "articlereplyfeedbacks ?s1 = articlereplyfeedbacks s @ [(?fid, ?up)]" by simp
  note eff = fillAuthors_effect [OF b assms f]
  obtain s' out where res: "?res = (s', out)"
    by (cases ?res)
  from resolve_new [OF assms, of g now vote cmt] f res
  have r: "(case o2 of Inl e \<Rightarrow> (s2, Inl e) | Inr _ \<Rightarrow> recount s2 aid rid) = (s', out)"
    by simp
  have "articlereplyfeedbacks s' = articlereplyfeedbacks s2"
  proof (cases o2)
    case (Inl e)
    with r show ?thesis by simp
  next
    case (Inr x)
    with r have "recount s2 aid rid = (s', out)" by simp
    from recount_others [OF this] show ?thesis by simp
  qed
  with res have same: "articlereplyfeedbacks (fst ?res) = articlereplyfeedbacks s2"
    by simp
  from eff have "articlereplyfeedbacks s2 = articlereplyfeedbacks s @ [(?fid, ?up)]
     \<or> (\<exists>x y. articlereplyfeedbacks s2 = articlereplyfeedbacks s @ [(?fid, authorDoc x y ?up)])"
    by (cases o2) auto
  with same show ?thesis
    by (auto simp: upsertDoc_def authorDoc_def)
qed

lemma recordVotes_existing:
  assumes "map_of base (getArticleReplyFeedbackId aid rid (user_id u) (user_appId u)) = None"
  shows "articlereplyfeedbacks s = base @ [(getArticleReplyFeedbackId aid rid (user_id u) (user_appId u), r)]
    \<Longrightarrow> articlereplyfeedbacks (recordVotes g aid rid u s calls)
           = base @ [(getArticleReplyFeedbackId aid rid (user_id u) (user_appId u), foldl revote r calls)]"
proof (induction calls arbitrary: s r)
  case Nil
  then show ?case by (simp add: recordVotes_def)
next
  case (Cons c calls)
  let ?s1 = "fst (resolve g s (call_now c) aid rid (call_vote c) (call_comment c) (Some u))"
  from resolve_step_existing [OF Cons.prems assms]
  have "articlereplyfeedbacks ?s1
          = base @ [(getArticleReplyFeedbackId aid rid (user_id u) (user_appId u), revote r c)]"
    by (simp add: revote_def)
  from Cons.IH [OF this] show ?case
    by (simp add: recordVotes_def)
qed

lemma foldl_revote_kept:
  "(articleId (foldl revote r calls), replyId (foldl revote r calls),
    userId (foldl revote r calls), appId (foldl revote r calls))
     = (articleId r, replyId r, userId r, appId r)
   \<and> createdAt (foldl revote r calls) = createdAt r
   \<and> comment (foldl revote r calls) = foldl keptComment (comment r) (map call_comment calls)"
  by (induction calls arbitrary: r) (simp_all add: revote_def voteDoc_def keptComment_def)

lemma foldl_revote_last:
  "calls \<noteq> [] \<Longrightarrow>
     score (foldl revote r calls) = call_vote (last calls)
     \<and> updatedAt (foldl revote r calls) = call_now (last calls)"
  by (induction calls arbitrary: r) (simp_all add: revote_def voteDoc_def)

lemma foldl_keptComment_last:
  "calls \<noteq> [] \<Longrightarrow> call_comment (last calls) \<noteq> Undefined \<Longrightarrow>
     foldl keptComment c (map call_comment calls) = call_comment (last calls)"
  by (induction calls arbitrary: c) (auto simp: keptComment_def split: comment.splits)

text \<open>
  C3, as the claim states it, fails on the comment: after a vote with the comment good and
  a second vote of the same identity with no comment, the one record of the key holds the
  comment good, not the last call's.
\<close>

theorem recordVotes_comment_kept:
  "map_option comment (map_of (articlereplyfeedbacks
      (recordVotes normalStatus ''A1'' ''R1'' user1 store0
         [\<lparr>call_vote = 1, call_comment = Str ''good'', call_now = ''t1''\<rparr>,
          \<lparr>call_vote = - 1, call_comment = Undefined, call_now = ''t2''\<rparr>]))
      ''A1__R1__U1__web'') = Some (Str ''good'')
   \<and> call_comment (last [\<lparr>call_vote = 1, call_comment = Str ''good'', call_now = ''t1''\<rparr>,
          \<lparr>call_vote = - 1, call_comment = Undefined, call_now = ''t2''\<rparr>]) \<noteq> Str ''good''"
  by (simp add: recordVotes_def first_vote second_vote)

text \<open>
  C3, amended: take a store with no document under the key's id and no record with the
  composite key, and a non-empty sequence of calls of one authenticated identity on one
  pair. Afterwards exactly one record of the store has that composite key; it is stored
  under the key's id; its score and updatedAt are the last call's, its createdAt is the
  first call's timestamp, and its comment is that of the last call whose comment was not
  undefined (the first call's when there is none): the last call's whenever that one is
  not undefined.
\<close>

theorem recordVotes_one_record:
  assumes "calls \<noteq> []"
    and "map_of (articlereplyfeedbacks s) (getArticleReplyFeedbackId aid rid (user_id u) (user_appId u)) = None"
    and "\<forall>(i, r) \<in> set (articlereplyfeedbacks s).
           (articleId r, replyId r, userId r, appId r) \<noteq> (aid, rid, user_id u, user_appId u)"
  shows "\<exists>r. filter (\<lambda>(i, r). (articleId r, replyId r, userId r, appId r) = (aid, rid, user_id u, user_appId u))
                (articlereplyfeedbacks (recordVotes g aid rid u s calls))
              = [(getArticleReplyFeedbackId aid rid (user_id u) (user_appId u), r)]
          \<and> score r = call_vote (last calls)
          \<and> updatedAt r = call_now (last calls)
          \<and> createdAt r = call_now (hd calls)
          \<and> comment r = foldl keptComment (call_comment (hd calls)) (map call_comment (tl calls))
          \<and> (call_comment (last calls) \<noteq> Undefined \<longrightarrow> comment r = call_comment (last calls))"
proof -
  let ?fid = "getArticleReplyFeedbackId aid rid (user_id u) (user_appId u)"
  let ?key = "\<lambda>(i, r). (articleId r, replyId r, userId r, appId r) = (aid, rid, user_id u, user_appId u)"
  from assms(1) obtain c cs where calls: "calls = c # cs" by (cases calls) auto
  let ?s1 = "fst (resolve g s (call_now c) aid rid (call_vote c) (call_comment c) (Some u))"
  from resolve_step_new [OF assms(2), of g "call_now c" "call_vote c" "call_comment c"]
  obtain r1 where s1: "articlereplyfeedbacks ?s1 = articlereplyfeedbacks s @ [(?fid, r1)]"
    and k1: "(articleId r1, replyId r1, userId r1, appId r1) = (aid, rid, user_id u, user_appId u)"
    and f1: "score r1 = call_vote c" "createdAt r1 = call_now c" "updatedAt r1 = call_now c"
            "comment r1 = call_comment c"
    by blast
  let ?r = "foldl revote r1 cs"
  have rv: "recordVotes g aid rid u s calls = recordVotes g aid rid u ?s1 cs"
    by (simp add: calls recordVotes_def)
  from recordVotes_existing [OF assms(2) s1, of g cs]
  have fin: "articlereplyfeedbacks (recordVotes g aid rid u s calls) = articlereplyfeedbacks s @ [(?fid, ?r)]"
    by (simp add: rv)
  note kept = foldl_revote_kept [of r1 cs]
  from assms(3) have none: "filter ?key (articlereplyfeedbacks s) = []"
    by (auto simp: filter_empty_conv)
  from kept k1 have key: "?key (?fid, ?r)" by simp
  from fin none key have one: "filter ?key (articlereplyfeedbacks (recordVotes g aid rid u s calls)) = [(?fid, ?r)]"
    by simp
  have sc: "score ?r = call_vote (last calls) \<and> updatedAt ?r = call_now (last calls)"
  proof (cases "cs = []")
    case True
    with f1 calls show ?thesis by simp
  next
    case False
    with foldl_revote_last [of cs r1] calls show ?thesis by simp
  qed
  from kept f1 calls have cr: "createdAt ?r = call_now (hd calls)" by simp
  from kept f1 calls
  have cm: "comment ?r = foldl keptComment (call_comment (hd calls)) (map call_comment (tl calls))"
    by simp
  have lastc: "call_comment (last calls) \<noteq> Undefined \<longrightarrow> comment ?r = call_comment (last calls)"
  proof (cases "cs = []")
    case True
    with kept f1 calls show ?thesis by simp
  next
    case False
    with foldl_keptComment_last [of cs "call_comment c"] cm calls show ?thesis by simp
  qed
  from one sc cr cm lastc show ?thesis by blast
qed

theorem recordVotes_one_record_witness:
  "map (\<lambda>(i, r). (i, score r, createdAt r, updatedAt r, comment r))
     (filter (\<lambda>(i, r). (articleId r, replyId r, userId r, appId r) = (''A1'', ''R1'', ''U2'', ''web''))
        (articlereplyfeedbacks
           (recordVotes normalStatus ''A1'' ''R1'' user2 store1
              [\<lparr>call_vote = 1, call_comment = Str ''nice'', call_now = ''t2''\<rparr>,
               \<lparr>call_vote = 0, call_comment = Undefined, call_now = ''t3''\<rparr>,
               \<lparr>call_vote = - 1, call_comment = Null, call_now = ''t4''\<rparr>])))
   = [(''A1__R1__U2__web'', - 1, ''t2'', ''t4'', Null)]"
proof -
  let ?calls = "[\<lparr>call_vote = 1, call_comment = Str ''nice'', call_now = ''t2''\<rparr>,
               \<lparr>call_vote = 0, call_comment = Undefined, call_now = ''t3''\<rparr>,
               \<lparr>call_vote = - 1, call_comment = Null, call_now = ''t4''\<rparr>]"
  have fid: "getArticleReplyFeedbackId ''A1'' ''R1'' (user_id user2) (user_appId user2)
               = ''A1__R1__U2__web''"
    by (simp add: getArticleReplyFeedbackId_def user2_def)
  have a: "?calls \<noteq> []" by simp
  have b: "map_of (articlereplyfeedbacks store1)
             (getArticleReplyFeedbackId ''A1'' ''R1'' (user_id user2) (user_appId user2)) = None"
    by (simp add: fid store1_def)
  have c: "\<forall>(i, r) \<in> set (articlereplyfeedbacks store1).
             (articleId r, replyId r, userId r, appId r)
               \<noteq> (''A1'', ''R1'', user_id user2, user_appId user2)"
    by (simp add: store1_def user2_def)
  from recordVotes_one_record [OF a b c, of normalStatus]
  obtain r where
    "filter (\<lambda>(i, r). (articleId r, replyId r, userId r, appId r)
                         = (''A1'', ''R1'', user_id user2, user_appId user2))
        (articlereplyfeedbacks (recordVotes normalStatus ''A1'' ''R1'' user2 store1 ?calls))
       = [(getArticleReplyFeedbackId ''A1'' ''R1'' (user_id user2) (user_appId user2), r)]"
    and "score r = call_vote (last ?calls)" and "updatedAt r = call_now (last ?calls)"
    and "createdAt r = call_now (hd ?calls)"
    and "comment r = foldl keptComment (call_comment (hd ?calls)) (map call_comment (tl ?calls))"
    by blast
  then show ?thesis
    by (simp add: getArticleReplyFeedbackId_def user2_def keptComment_def)
qed

end
